theory Spec2Isabelle
  imports Main "HOL-Library.Word" "HOL-Library.Signed_Division"
begin

unbundle bit_operations_syntax

section \<open>testfs: a synthetic read-only directory tree\<close>

text \<open>
  The model follows \<^verbatim>\<open>testfs.c\<close> function by function, for one call at a time on an
  LP64 Linux target (the build the file documents): \<^verbatim>\<open>int\<close> and \<^verbatim>\<open>unsigned int\<close>
  are 32-bit words, \<^verbatim>\<open>size_t\<close> and \<^verbatim>\<open>off_t\<close> are 64-bit words, \<^verbatim>\<open>char\<close> is
  signed. Signed overflow wraps around. C strings are \<open>string\<close>s. Every handler
  result is an \<open>option\<close>: \<open>None\<close> is a call with no defined result, because a loop does
  not end or because \<^verbatim>\<open>strcpy\<close> overruns one of the 256-byte buffers.
\<close>

type_synonym c_int = "32 word"
type_synonym c_uint = "32 word"
type_synonym size_t = "64 word"
type_synonym off_t = "64 word"

definition MAXTOK :: nat where
  "MAXTOK = 16"

definition MAXWIDTH :: int where
  "MAXWIDTH = 1000000"

subsection \<open>The C library: numerals and strtok\<close>

definition isspace :: "char \<Rightarrow> bool" where
  "isspace c \<longleftrightarrow> c \<in> {CHR '' '', CHR 0x09, CHR 0x0A, CHR 0x0B, CHR 0x0C, CHR 0x0D}"

definition isdigit :: "char \<Rightarrow> bool" where
  "isdigit c \<longleftrightarrow> (48::nat) \<le> of_char c \<and> of_char c \<le> (57::nat)"

definition decimal :: "string \<Rightarrow> int" where
  "decimal ds = foldl (\<lambda>a c. 10 * a + (int (of_char c) - 48)) 0 ds"

text \<open>
  The numeral that \<^verbatim>\<open>strtol(s, NULL, 10)\<close> and the \<^verbatim>\<open>%d\<close> directive both read:
  white space, an optional sign, then the longest run of digits. \<open>None\<close> when
  there is no digit.
\<close>

definition numeral_prefix :: "string \<Rightarrow> int option" where
  "numeral_prefix s =
     (let s1 = dropWhile isspace s;
          neg = (case s1 of [] \<Rightarrow> False | c # _ \<Rightarrow> c = CHR ''-'');
          s2 = (case s1 of [] \<Rightarrow> [] | c # r \<Rightarrow> if c = CHR ''-'' \<or> c = CHR ''+'' then r else s1);
          ds = takeWhile isdigit s2
      in if ds = [] then None else Some (if neg then - decimal ds else decimal ds))"

text \<open>
  A numeral outside the range of \<^verbatim>\<open>int\<close> is undefined in C. The model takes what
  glibc does on LP64: the value saturates as a \<^verbatim>\<open>long\<close> and is then cut to 32 bits.
\<close>

definition int_of_long :: "int \<Rightarrow> c_int" where
  "int_of_long v = word_of_int (max (- (2 ^ 63)) (min (2 ^ 63 - 1) v))"

definition atoi :: "string \<Rightarrow> c_int" where
  "atoi s = (case numeral_prefix s of None \<Rightarrow> 0 | Some v \<Rightarrow> int_of_long v)"

text \<open>
  \<^verbatim>\<open>sscanf(p, "%d<lit>", &val) == 1\<close>: the result of \<^verbatim>\<open>sscanf\<close> counts the
  assigned items, so it is 1 as soon as \<^verbatim>\<open>%d\<close> has read a numeral, whether or not
  the literal characters \<open>lit\<close> that follow in the format match the input.
  \<open>Some val\<close> stands for "returned 1 and stored val", \<open>None\<close> for any other result.
\<close>

definition sscanf_d :: "string \<Rightarrow> string \<Rightarrow> c_int option" where
  "sscanf_d lit p = map_option int_of_long (numeral_prefix p)"

text \<open>
  \<^verbatim>\<open>strtok\<close> keeps the rest of the string in a hidden static pointer; the model
  returns it next to the token. \<open>strtok s d\<close> is \<^verbatim>\<open>strtok(s, d)\<close> on a fresh
  string and \<^verbatim>\<open>strtok(NULL, d)\<close> on the saved rest.
\<close>

definition strtok :: "string \<Rightarrow> char \<Rightarrow> string option \<times> string" where
  "strtok s d =
     (let s1 = dropWhile (\<lambda>c. c = d) s
      in if s1 = [] then (None, [])
         else (Some (takeWhile (\<lambda>c. c \<noteq> d) s1), drop 1 (dropWhile (\<lambda>c. c \<noteq> d) s1)))"

text \<open>
  \<^verbatim>\<open>strcpy\<close> into a \<^verbatim>\<open>char[256]\<close>: the copy, when the string and its terminator fit.
  A longer string overruns the buffer, and the call has no defined result.
\<close>

definition strcpy_buf :: "string \<Rightarrow> string option" where
  "strcpy_buf s = (if length s < 256 then Some s else None)"

subsection \<open>The root descriptor\<close>

record root_struct =
  fsize :: c_int
  depth :: nat
  width :: "c_int list"

text \<open>
  The loop of \<^verbatim>\<open>parse_root\<close> over the width tokens. \<^verbatim>\<open>continue\<close> on an empty
  token re-enters the loop in the same state, so the loop is a partial function:
  \<open>None\<close> is "does not return", \<open>Some None\<close> is the result -1, and
  \<open>Some (Some root)\<close> is the result 0 with the descriptor filled in.
\<close>

partial_function (option) width_loop ::
  "string option \<Rightarrow> string \<Rightarrow> root_struct \<Rightarrow> root_struct option option" where
  "width_loop p save root =
     (case p of
        None \<Rightarrow> Some (Some root)
      | Some t \<Rightarrow>
          if depth root < MAXTOK then
            if length t = 0 then width_loop p save root
            else
              let val = atoi t in
              if sint val \<le> 0 \<or> sint val > MAXWIDTH then Some None
              else
                let root' = root\<lparr>width := (width root)[depth root := val],
                                  depth := depth root + 1\<rparr>;
                    r = strtok save CHR ''x''
                in width_loop (fst r) (snd r) root'
          else Some (Some root))"

declare width_loop.simps [code]

definition parse_root :: "string \<Rightarrow> root_struct option option" where
  "parse_root str =
     (case strcpy_buf str of
        None \<Rightarrow> None
      | Some buf \<Rightarrow>
     (let r = strtok buf CHR ''x'' in
      case fst r of
        None \<Rightarrow> Some None
      | Some p \<Rightarrow>
         (let fs =
            (case sscanf_d ''k'' p of Some val \<Rightarrow> Some (val * 1024) | None \<Rightarrow>
             case sscanf_d ''K'' p of Some val \<Rightarrow> Some (val * 1024) | None \<Rightarrow>
             case sscanf_d ''m'' p of Some val \<Rightarrow> Some (val * 1024 * 1024) | None \<Rightarrow>
             case sscanf_d ''m'' p of Some val \<Rightarrow> Some (val * 1024 * 1024) | None \<Rightarrow>
             case sscanf_d ''M'' p of Some val \<Rightarrow> Some (val * 1024 * 1024) | None \<Rightarrow>
             case sscanf_d ''g'' p of Some val \<Rightarrow> Some (val * 1024 * 1024 * 1024) | None \<Rightarrow>
             case sscanf_d ''G'' p of Some val \<Rightarrow> Some (val * 1024 * 1024 * 1024) | None \<Rightarrow>
             case sscanf_d [] p of Some val \<Rightarrow> Some val | None \<Rightarrow> None)
          in case fs of
               None \<Rightarrow> Some None
             | Some f \<Rightarrow>
                (let root = \<lparr>fsize = f, depth = 0, width = replicate MAXTOK 0\<rparr>;
                     r' = strtok (snd r) CHR ''x''
                 in width_loop (fst r') (snd r') root))))"

subsection \<open>Path tokens and the seed\<close>

text \<open>
  The loop of \<^verbatim>\<open>parse_path\<close>. The array \<^verbatim>\<open>tok\<close> and its fill count \<^verbatim>\<open>n\<close> are one
  list: \<^verbatim>\<open>tok[n] = p; n++\<close> appends, and the result \<^verbatim>\<open>n\<close> is the length.
\<close>

function parse_path_loop :: "string option \<Rightarrow> string \<Rightarrow> string list \<Rightarrow> string list" where
  "parse_path_loop p save tok =
     (case p of
        None \<Rightarrow> tok
      | Some t \<Rightarrow>
          if length tok < MAXTOK then
            let r = strtok save CHR ''/''
            in parse_path_loop (fst r) (snd r) (tok @ [t])
          else tok)"
  by pat_completeness auto
termination
  by (relation "measure (\<lambda>(p, save, tok). MAXTOK - length tok)") auto

definition parse_path :: "string \<Rightarrow> string list option" where
  "parse_path path =
     (case strcpy_buf path of
        None \<Rightarrow> None
      | Some buf \<Rightarrow>
          (let r = strtok buf CHR ''/'' in Some (parse_path_loop (fst r) (snd r) [])))"

text \<open>A \<^verbatim>\<open>char\<close> promoted to \<^verbatim>\<open>int\<close> and converted to \<^verbatim>\<open>unsigned int\<close>.\<close>

definition char_int :: "char \<Rightarrow> c_uint" where
  "char_int c = (let n = of_char c :: nat in if n < 128 then of_nat n else of_nat n - 256)"

definition seed_from_path :: "string \<Rightarrow> c_int" where
  "seed_from_path path =
     snd (foldl (\<lambda>(x, seed) c. (char_int c, seed + char_int c * x)) (0, 0) path)"

subsection \<open>The four handlers\<close>

datatype errno = ENOENT | EACCES

record stat =
  st_mode :: "32 word"
  st_nlink :: nat
  st_size :: int

definition S_IFDIR :: "32 word" where
  "S_IFDIR = 0x4000"

definition S_IFREG :: "32 word" where
  "S_IFREG = 0x8000"

definition O_RDONLY :: c_int where
  "O_RDONLY = 0"

definition O_APPEND :: c_int where
  "O_APPEND = 0x400"

text \<open>The modes \<^verbatim>\<open>S_IFDIR | 0755\<close> and \<^verbatim>\<open>S_IFREG | 0444\<close>; the buffer was zeroed first.\<close>

definition dir_stat :: stat where
  "dir_stat = \<lparr>st_mode = S_IFDIR OR 493, st_nlink = 2, st_size = 0\<rparr>"

definition reg_stat :: "c_int \<Rightarrow> stat" where
  "reg_stat sz = \<lparr>st_mode = S_IFREG OR 292, st_nlink = 1, st_size = sint sz\<rparr>"

definition testfs_getattr :: "string \<Rightarrow> (errno + stat) option" where
  "testfs_getattr path =
     (if path = ''/'' then Some (Inl ENOENT)
      else case strcpy_buf path of
        None \<Rightarrow> None
      | Some pathbuf \<Rightarrow>
      (case parse_path pathbuf of
        None \<Rightarrow> None
      | Some tok \<Rightarrow>
       (let ntok = length tok in
        if ntok < 1 then Some (Inl ENOENT)
        else case parse_root (tok ! 0) of
          None \<Rightarrow> None
        | Some None \<Rightarrow> Some (Inl ENOENT)
        | Some (Some root) \<Rightarrow>
            if ntok \<le> depth root then Some (Inr dir_stat)
            else if ntok = depth root + 1 then Some (Inr (reg_stat (fsize root)))
            else Some (Inl ENOENT))))"

text \<open>\<^verbatim>\<open>sprintf(fname, "%d", i)\<close>.\<close>

function dec_digits :: "nat \<Rightarrow> string" where
  "dec_digits n =
     (if n < 10 then [char_of (48 + n)]
      else dec_digits (n div 10) @ [char_of (48 + n mod 10)])"
  by pat_completeness auto
termination
  by (relation "measure id") auto

declare dec_digits.simps [simp del]

definition sprintf_d :: "int \<Rightarrow> string" where
  "sprintf_d i = (if i < 0 then CHR ''-'' # dec_digits (nat (- i)) else dec_digits (nat i))"

text \<open>The result of \<^verbatim>\<open>testfs_readdir\<close> is the list of names handed to \<^verbatim>\<open>filler\<close>, in order.\<close>

definition testfs_readdir :: "string \<Rightarrow> (errno + string list) option" where
  "testfs_readdir path =
     (if path = ''/'' then Some (Inl ENOENT)
      else case strcpy_buf path of
        None \<Rightarrow> None
      | Some pathbuf \<Rightarrow>
      (case parse_path pathbuf of
        None \<Rightarrow> None
      | Some tok \<Rightarrow>
       (let ntok = length tok in
        if ntok < 1 then Some (Inl ENOENT)
        else case parse_root (tok ! 0) of
          None \<Rightarrow> None
        | Some None \<Rightarrow> Some (Inl ENOENT)
        | Some (Some root) \<Rightarrow>
            if ntok > depth root then Some (Inl ENOENT)
            else Some (Inr ([''.'', ''..''] @
                   map (\<lambda>i. sprintf_d (int i)) [0..<nat (sint (width root ! (ntok - 1)))])))))"

text \<open>
  \<^verbatim>\<open>root.width[root.depth-1]\<close>. With depth 0 the index is -1, which in
  \<^verbatim>\<open>struct root_struct\<close> is the field before the array: \<^verbatim>\<open>depth\<close> itself.
\<close>

definition last_width :: "root_struct \<Rightarrow> c_int" where
  "last_width root =
     (if depth root = 0 then of_nat (depth root) else width root ! (depth root - 1))"

definition testfs_open :: "string \<Rightarrow> c_int \<Rightarrow> (errno + unit) option" where
  "testfs_open path flags =
     (case strcpy_buf path of
        None \<Rightarrow> None
      | Some pathbuf \<Rightarrow>
     (case parse_path pathbuf of
        None \<Rightarrow> None
      | Some tok \<Rightarrow>
     (let ntok = length tok in
      if ntok < 1 then Some (Inl ENOENT)
      else case parse_root (tok ! 0) of
        None \<Rightarrow> None
      | Some None \<Rightarrow> Some (Inl ENOENT)
      | Some (Some root) \<Rightarrow>
          if ntok \<noteq> depth root + 1 then Some (Inl ENOENT)
          else (case sscanf_d [] (tok ! (ntok - 1)) of
            None \<Rightarrow> Some (Inl ENOENT)
          | Some val \<Rightarrow>
              if sint val < 0 \<or> sint val \<ge> sint (last_width root) then Some (Inl ENOENT)
              else if flags AND 3 \<noteq> O_RDONLY then Some (Inl EACCES)
              else Some (Inr ())))))"

text \<open>
  The byte that the loop of \<^verbatim>\<open>testfs_read\<close> stores for position \<^verbatim>\<open>j\<close>; \<^verbatim>\<open>%\<close>
  truncates towards zero (\<open>smod\<close>).
\<close>

definition content_byte :: "root_struct \<Rightarrow> c_int \<Rightarrow> c_int \<Rightarrow> char" where
  "content_byte root seed j =
     (if sint j smod 32 = 31 \<or> j = fsize root - 1 then CHR 0x0A
      else char_of (97 + sint (seed + j * 1723) smod 26))"

text \<open>
  \<^verbatim>\<open>testfs_read\<close> returns the bytes stored in \<^verbatim>\<open>buf\<close>; their number is the result of
  the C function. \<^verbatim>\<open>root.fsize-offset < size\<close> compares an \<^verbatim>\<open>off_t\<close> with a
  \<^verbatim>\<open>size_t\<close>, that is, unsigned on 64 bits, and \<^verbatim>\<open>size <= 0\<close> is \<^verbatim>\<open>size == 0\<close>.
  The counter \<^verbatim>\<open>i\<close> is an \<^verbatim>\<open>int\<close>: the loop is the one of the source for sizes
  below \<open>2 ^ 31\<close>.
\<close>

definition testfs_read :: "string \<Rightarrow> size_t \<Rightarrow> off_t \<Rightarrow> c_int \<Rightarrow> (errno + string) option" where
  "testfs_read path sz offset flags =
     (case strcpy_buf path of
        None \<Rightarrow> None
      | Some pathbuf \<Rightarrow>
     (case parse_path pathbuf of
        None \<Rightarrow> None
      | Some tok \<Rightarrow>
     (let ntok = length tok in
      if ntok < 1 then Some (Inl ENOENT)
      else case parse_root (tok ! 0) of
        None \<Rightarrow> None
      | Some None \<Rightarrow> Some (Inl ENOENT)
      | Some (Some root) \<Rightarrow>
          if ntok \<noteq> depth root + 1 then Some (Inl ENOENT)
          else (case sscanf_d [] (tok ! (ntok - 1)) of
            None \<Rightarrow> Some (Inl ENOENT)
          | Some val \<Rightarrow>
              if sint val < 0 \<or> sint val \<ge> sint (last_width root) then Some (Inl ENOENT)
              else if flags AND 3 \<noteq> O_RDONLY then Some (Inl EACCES)
              else
                let size' = (if scast (fsize root) - offset < sz
                             then scast (fsize root) - offset else sz) in
                if size' \<le> 0 then Some (Inr [])
                else
                  let seed = seed_from_path pathbuf in
                  Some (Inr (map (\<lambda>i. content_byte root seed (ucast (of_nat i + offset)))
                                 [0..<unat size']))))))"

subsection \<open>Paths as the specification reads them\<close>

text \<open>
  The segments of a path: split at every separator, empty pieces dropped, with no
  bound on their number.
\<close>

fun split_on :: "char \<Rightarrow> string \<Rightarrow> string list" where
  "split_on d [] = [[]]"
| "split_on d (c # cs) =
     (if c = d then [] # split_on d cs
      else case split_on d cs of [] \<Rightarrow> [[c]] | t # ts \<Rightarrow> (c # t) # ts)"

definition tokens :: "char \<Rightarrow> string \<Rightarrow> string list" where
  "tokens d s = filter (\<lambda>t. t \<noteq> []) (split_on d s)"

definition segments :: "string \<Rightarrow> string list" where
  "segments path = tokens CHR ''/'' path"

text \<open>
  A trailing segment that reads as a number within the last layer, and a path that
  names a file of the descriptor \<open>root\<close>: it fits the buffers, its first token parses
  to \<open>root\<close>, it has \<open>depth + 1\<close> tokens, and the last one is such a number.
\<close>

definition leaf_ok :: "root_struct \<Rightarrow> string \<Rightarrow> bool" where
  "leaf_ok root leaf =
     (case sscanf_d [] leaf of
        None \<Rightarrow> False
      | Some val \<Rightarrow> 0 \<le> sint val \<and> sint val < sint (last_width root))"

definition file_path :: "string \<Rightarrow> root_struct \<Rightarrow> bool" where
  "file_path path root =
     (case parse_path path of
        Some (r # sels) \<Rightarrow>
          parse_root r = Some (Some root) \<and> length sels = depth root \<and>
          leaf_ok root (last (r # sels))
      | _ \<Rightarrow> False)"

text \<open>
  The decimal string of a natural number: a non-empty string of the ten digit
  characters, without a leading zero unless it is the single digit 0, whose digits
  weighted by the powers of ten, the last digit counting once, add up to the number.
\<close>

definition decimal_value :: "string \<Rightarrow> nat" where
  "decimal_value s =
     sum_list (map (\<lambda>k. (of_char (rev s ! k) - 48) * 10 ^ k) [0..<length s])"

definition decimal_string :: "nat \<Rightarrow> string \<Rightarrow> bool" where
  "decimal_string n s \<longleftrightarrow>
     s \<noteq> [] \<and> set s \<subseteq> set ''0123456789'' \<and>
     (if hd s = CHR ''0'' then length s = 1 else True) \<and> decimal_value s = n"

text \<open>What \<^verbatim>\<open>parse_root\<close> establishes when it returns 0.\<close>

definition root_inv :: "root_struct \<Rightarrow> bool" where
  "root_inv root \<longleftrightarrow>
     depth root \<le> MAXTOK \<and> length (width root) = MAXTOK \<and>
     (\<forall>i<depth root. 0 < sint (width root ! i) \<and> sint (width root ! i) \<le> MAXWIDTH)"

section \<open>The C library and the two parsers\<close>

lemma strtok_token_nonempty:
  assumes "fst (strtok s d) = Some t"
  shows "t \<noteq> []"
proof -
  let ?s1 = "dropWhile (\<lambda>c. c = d) s"
  from assms have ne: "?s1 \<noteq> []" and t: "t = takeWhile (\<lambda>c. c \<noteq> d) ?s1"
    by (auto simp: strtok_def Let_def split: if_splits)
  from ne have "hd ?s1 \<noteq> d" using hd_dropWhile [of "\<lambda>c. c = d" s] by simp
  with ne t show ?thesis by (cases ?s1) auto
qed

lemma width_loop_returns:
  assumes "\<And>t. p = Some t \<Longrightarrow> t \<noteq> []" and "root_inv root"
  shows "\<exists>r. width_loop p save root = Some r \<and>
             (\<forall>root'. r = Some root' \<longrightarrow> root_inv root' \<and> fsize root' = fsize root)"
  using assms
proof (induction "MAXTOK - depth root" arbitrary: p save root)
  case 0
  from "0.hyps" have "\<not> depth root < MAXTOK" by simp
  then have "width_loop p save root = Some (Some root)"
    by (subst width_loop.simps) (simp split: option.split)
  with "0.prems"(2) show ?case by simp
next
  case (Suc n)
  show ?case
  proof (cases p)
    case None
    then have "width_loop p save root = Some (Some root)"
      by (subst width_loop.simps) simp
    with Suc.prems(2) show ?thesis by simp
  next
    case (Some t)
    with Suc.prems(1) have t: "t \<noteq> []" by blast
    from Suc.hyps(2) have lt: "depth root < MAXTOK" by simp
    show ?thesis
    proof (cases "sint (atoi t) \<le> 0 \<or> sint (atoi t) > MAXWIDTH")
      case True
      with Some t lt have "width_loop p save root = Some None"
        by (subst width_loop.simps) (simp add: Let_def)
      then show ?thesis by simp
    next
      case False
      let ?root' = "root\<lparr>width := (width root)[depth root := atoi t], depth := depth root + 1\<rparr>"
      let ?r = "strtok save CHR ''x''"
      have inv': "root_inv ?root'"
        using Suc.prems(2) lt False
        by (auto simp: root_inv_def nth_list_update less_Suc_eq)
      have n: "n = MAXTOK - depth ?root'" using Suc.hyps(2) by simp
      have ne: "\<And>u. fst ?r = Some u \<Longrightarrow> u \<noteq> []"
        by (rule strtok_token_nonempty)
      from Suc.hyps(1) [OF n ne inv', where save = "snd ?r"]
      obtain r where r: "width_loop (fst ?r) (snd ?r) ?root' = Some r"
        and r': "\<forall>root'. r = Some root' \<longrightarrow> root_inv root' \<and> fsize root' = fsize ?root'"
        by blast
      have step: "width_loop p save root = width_loop (fst ?r) (snd ?r) ?root'"
        using Some t lt False by (subst width_loop.simps) (simp add: Let_def)
      have res: "width_loop p save root = Some r"
        by (simp only: step r)
      have fs: "fsize ?root' = fsize root" by simp
      from r' show ?thesis unfolding res fs by blast
    qed
  qed
qed

lemma strcpy_buf_fits: "length s < 256 \<Longrightarrow> strcpy_buf s = Some s"
  by (simp add: strcpy_buf_def)

lemma parse_root_fits: "parse_root s = Some x \<Longrightarrow> length s < 256"
  by (simp add: parse_root_def strcpy_buf_def split: if_splits)

lemma parse_root_kilo:
  assumes "length s < 256"
  shows "parse_root s =
     (case fst (strtok s CHR ''x'') of
        None \<Rightarrow> Some None
      | Some p \<Rightarrow>
         (case numeral_prefix p of
            None \<Rightarrow> Some None
          | Some v \<Rightarrow>
              width_loop (fst (strtok (snd (strtok s CHR ''x'')) CHR ''x''))
                (snd (strtok (snd (strtok s CHR ''x'')) CHR ''x''))
                \<lparr>fsize = int_of_long v * 1024, depth = 0, width = replicate MAXTOK 0\<rparr>))"
  by (simp add: parse_root_def strcpy_buf_fits [OF assms] Let_def sscanf_d_def
        split: option.split)

lemma parse_root_returns:
  assumes "length s < 256"
  shows "\<exists>r. parse_root s = Some r \<and> (\<forall>root. r = Some root \<longrightarrow> root_inv root)"
proof (cases "fst (strtok s CHR ''x'')")
  case None
  then show ?thesis by (simp add: parse_root_kilo [OF assms])
next
  case (Some p)
  show ?thesis
  proof (cases "numeral_prefix p")
    case None
    with Some show ?thesis by (simp add: parse_root_kilo [OF assms])
  next
    case v: (Some v)
    let ?root = "\<lparr>fsize = int_of_long v * 1024, depth = 0, width = replicate MAXTOK 0\<rparr>"
    let ?r = "strtok (snd (strtok s CHR ''x'')) CHR ''x''"
    have eq: "parse_root s = width_loop (fst ?r) (snd ?r) ?root"
      using Some v by (simp add: parse_root_kilo [OF assms])
    have inv: "root_inv ?root" by (simp add: root_inv_def)
    have ne: "\<And>u. fst ?r = Some u \<Longrightarrow> u \<noteq> []"
      by (rule strtok_token_nonempty)
    from width_loop_returns [OF ne inv, where save = "snd ?r"]
    show ?thesis unfolding eq by blast
  qed
qed

lemma split_on_takeWhile:
  "split_on d cs = takeWhile (\<lambda>c. c \<noteq> d) cs #
     (case dropWhile (\<lambda>c. c \<noteq> d) cs of [] \<Rightarrow> [] | _ # r \<Rightarrow> split_on d r)"
  by (induction cs) auto

lemma tokens_strtok:
  "tokens d s = (case fst (strtok s d) of None \<Rightarrow> [] | Some t \<Rightarrow> t # tokens d (snd (strtok s d)))"
proof (induction s)
  case Nil
  show ?case by (simp add: tokens_def strtok_def)
next
  case (Cons c cs)
  show ?case
  proof (cases "c = d")
    case True
    then have a: "strtok (c # cs) d = strtok cs d" by (simp add: strtok_def)
    from True have b: "tokens d (c # cs) = tokens d cs" by (simp add: tokens_def)
    show ?thesis unfolding a b by (rule Cons.IH)
  next
    case False
    have sp: "split_on d (c # cs) = (c # takeWhile (\<lambda>c. c \<noteq> d) cs) #
       (case dropWhile (\<lambda>c. c \<noteq> d) cs of [] \<Rightarrow> [] | _ # r \<Rightarrow> split_on d r)"
      using False by (subst split_on_takeWhile) simp
    have st: "strtok (c # cs) d = (Some (c # takeWhile (\<lambda>c. c \<noteq> d) cs),
        drop 1 (dropWhile (\<lambda>c. c \<noteq> d) cs))"
      using False by (simp add: strtok_def)
    have "tokens d (c # cs) = (c # takeWhile (\<lambda>c. c \<noteq> d) cs) #
        filter (\<lambda>t. t \<noteq> [])
          (case dropWhile (\<lambda>c. c \<noteq> d) cs of [] \<Rightarrow> [] | _ # r \<Rightarrow> split_on d r)"
      unfolding tokens_def sp by simp
    also have "filter (\<lambda>t. t \<noteq> [])
          (case dropWhile (\<lambda>c. c \<noteq> d) cs of [] \<Rightarrow> [] | _ # r \<Rightarrow> split_on d r)
        = tokens d (drop 1 (dropWhile (\<lambda>c. c \<noteq> d) cs))"
      by (cases "dropWhile (\<lambda>c. c \<noteq> d) cs")
         (simp_all add: tokens_def del: dropWhile_eq_Nil_conv)
    finally show ?thesis unfolding st by simp
  qed
qed

lemma parse_path_loop_eq:
  "parse_path_loop p save tok =
     tok @ take (MAXTOK - length tok)
             (case p of None \<Rightarrow> [] | Some t \<Rightarrow> t # tokens CHR ''/'' save)"
proof (induction p save tok rule: parse_path_loop.induct)
  case (1 p save tok)
  show ?case
  proof (cases p)
    case None
    then show ?thesis by simp
  next
    case (Some t)
    show ?thesis
    proof (cases "length tok < MAXTOK")
      case False
      with Some show ?thesis by simp
    next
      case True
      let ?r = "strtok save CHR ''/''"
      have "parse_path_loop p save tok = parse_path_loop (fst ?r) (snd ?r) (tok @ [t])"
        using Some True by (simp add: Let_def)
      also have "\<dots> = (tok @ [t]) @ take (MAXTOK - length (tok @ [t]))
          (case fst ?r of None \<Rightarrow> [] | Some u \<Rightarrow> u # tokens CHR ''/'' (snd ?r))"
        using "1.IH" [OF Some True refl] .
      also have "(case fst ?r of None \<Rightarrow> [] | Some u \<Rightarrow> u # tokens CHR ''/'' (snd ?r)) = tokens CHR ''/'' save"
        by (rule tokens_strtok [symmetric])
      also have "(tok @ [t]) @ take (MAXTOK - length (tok @ [t])) (tokens CHR ''/'' save)
          = tok @ take (MAXTOK - length tok) (t # tokens CHR ''/'' save)"
      proof -
        from True obtain n where n: "MAXTOK - length tok = Suc n"
          by (cases "MAXTOK - length tok") auto
        then have "MAXTOK - length (tok @ [t]) = n" by simp
        with n show ?thesis by simp
      qed
      finally show ?thesis using Some by simp
    qed
  qed
qed

lemma parse_path_fits: "parse_path path = Some tok \<Longrightarrow> length path < 256"
  by (simp add: parse_path_def strcpy_buf_def split: if_splits)

lemma parse_path_segments:
  assumes "length path < 256"
  shows "parse_path path = Some (take MAXTOK (segments path))"
  unfolding parse_path_def strcpy_buf_fits [OF assms] option.case Let_def
    parse_path_loop_eq segments_def
  using tokens_strtok [of "CHR ''/''" path] by simp

lemma parse_path_Cons:
  assumes "length path < 256" and "segments path = r # sels"
  shows "parse_path path = Some (r # take (MAXTOK - 1) sels)"
  unfolding parse_path_segments [OF assms(1)] assms(2) by (simp add: MAXTOK_def take_Cons')

lemma parse_path_short:
  assumes "length path < 256" and "segments path = r # sels" and "length sels < MAXTOK"
  shows "parse_path path = Some (r # sels)"
  using assms(2,3) unfolding parse_path_segments [OF assms(1)] by (simp add: MAXTOK_def)

lemma parse_path_not_root:
  assumes "parse_path path = Some (r # sels)"
  shows "path \<noteq> ''/''"
  using assms by (auto simp: parse_path_def strcpy_buf_def strtok_def)

lemma parse_root_depth:
  assumes "parse_root r = Some (Some root)"
  shows "root_inv root"
  using parse_root_returns [OF parse_root_fits [OF assms]] assms by auto

section \<open>What each handler computes from the tokens\<close>

lemma getattr_tokens:
  assumes "parse_path path = Some (r # sels)" and "parse_root r = Some (Some root)"
  shows "testfs_getattr path =
     Some (if length sels < depth root then Inr dir_stat
           else if length sels = depth root then Inr (reg_stat (fsize root))
           else Inl ENOENT)"
  using assms parse_path_not_root [OF assms(1)]
    strcpy_buf_fits [OF parse_path_fits [OF assms(1)]]
  by (simp add: testfs_getattr_def Let_def)

lemma readdir_tokens:
  assumes "parse_path path = Some (r # sels)" and "parse_root r = Some (Some root)"
  shows "testfs_readdir path =
     Some (if length sels < depth root
           then Inr ([''.'', ''..''] @
                  map (\<lambda>i. sprintf_d (int i)) [0..<nat (sint (width root ! length sels))])
           else Inl ENOENT)"
  using assms parse_path_not_root [OF assms(1)]
    strcpy_buf_fits [OF parse_path_fits [OF assms(1)]]
  by (simp add: testfs_readdir_def Let_def)

lemma open_tokens:
  assumes "parse_path path = Some (r # sels)" and "parse_root r = Some (Some root)"
  shows "testfs_open path flags =
     Some (if length sels = depth root \<and> leaf_ok root (last (r # sels))
           then (if flags AND 3 = O_RDONLY then Inr () else Inl EACCES)
           else Inl ENOENT)"
proof -
  define leaf where "leaf = last (r # sels)"
  have lf: "(r # sels) ! (length (r # sels) - 1) = leaf"
    unfolding leaf_def by (simp add: last_conv_nth)
  have pb: "strcpy_buf path = Some path"
    by (rule strcpy_buf_fits [OF parse_path_fits [OF assms(1)]])
  have "testfs_open path flags =
     Some (if length sels = depth root \<and> leaf_ok root leaf
           then (if flags AND 3 = O_RDONLY then Inr () else Inl EACCES)
           else Inl ENOENT)"
    unfolding testfs_open_def pb option.case assms(1) Let_def lf using assms(2)
    by (simp add: leaf_ok_def split: option.split)
  then show ?thesis unfolding leaf_def .
qed

lemma read_tokens:
  assumes "parse_path path = Some (r # sels)" and "parse_root r = Some (Some root)"
  shows "testfs_read path sz offset flags =
     Some (if length sels = depth root \<and> leaf_ok root (last (r # sels))
           then (if flags AND 3 = O_RDONLY
                 then Inr (map (\<lambda>i. content_byte root (seed_from_path path) (ucast (of_nat i + offset)))
                            [0..<unat (if scast (fsize root) - offset < sz
                                       then scast (fsize root) - offset else sz)])
                 else Inl EACCES)
           else Inl ENOENT)"
proof -
  define leaf where "leaf = last (r # sels)"
  have lf: "(r # sels) ! (length (r # sels) - 1) = leaf"
    unfolding leaf_def by (simp add: last_conv_nth)
  have pb: "strcpy_buf path = Some path"
    by (rule strcpy_buf_fits [OF parse_path_fits [OF assms(1)]])
  have "testfs_read path sz offset flags =
     Some (if length sels = depth root \<and> leaf_ok root leaf
           then (if flags AND 3 = O_RDONLY
                 then Inr (map (\<lambda>i. content_byte root (seed_from_path path) (ucast (of_nat i + offset)))
                            [0..<unat (if scast (fsize root) - offset < sz
                                       then scast (fsize root) - offset else sz)])
                 else Inl EACCES)
           else Inl ENOENT)"
    unfolding testfs_read_def pb option.case assms(1) Let_def lf using assms(2)
    by (simp add: leaf_ok_def split: option.split)
  then show ?thesis unfolding leaf_def .
qed

lemma bad_root_tokens:
  assumes "parse_path path = Some (r # sels)" and "parse_root r = Some None"
  shows "testfs_getattr path = Some (Inl ENOENT)"
    and "testfs_readdir path = Some (Inl ENOENT)"
    and "testfs_open path flags = Some (Inl ENOENT)"
    and "testfs_read path sz offset flags = Some (Inl ENOENT)"
  using assms parse_path_not_root [OF assms(1)]
    strcpy_buf_fits [OF parse_path_fits [OF assms(1)]]
  by (simp_all add: testfs_getattr_def testfs_readdir_def testfs_open_def testfs_read_def Let_def)

lemma file_path_tokens:
  assumes "file_path path root"
  obtains r sels where "parse_path path = Some (r # sels)"
    and "parse_root r = Some (Some root)"
    and "length sels = depth root" and "leaf_ok root (last (r # sels))"
  using assms by (auto simp: file_path_def split: option.splits list.splits)

lemma dir_not_reg: "dir_stat \<noteq> reg_stat s"
  by (simp add: dir_stat_def reg_stat_def)

section \<open>Words and slices\<close>

lemma ucast_of_nat_narrow: "(ucast (of_nat k :: 64 word) :: 32 word) = of_nat k"
  by (rule bit_word_eqI) (auto simp: bit_simps)

lemma unat_of_nat_64: "k < 2 ^ 64 \<Longrightarrow> unat (of_nat k :: 64 word) = k"
  by (simp add: unat_of_nat)

lemma nonneg_word_of_nat: "0 \<le> sint (w :: 'a::len word) \<Longrightarrow> w = of_nat (nat (sint w))"
  by simp

lemma scast_nonneg_of_nat:
  "0 \<le> sint (w :: 32 word) \<Longrightarrow> (scast w :: 64 word) = of_nat (nat (sint w))"
  by simp

lemma slice_map_upt:
  assumes "k + m \<le> n"
  shows "take m (drop k (map f [0..<n])) = map (\<lambda>i. f (i + k)) [0..<m]"
proof -
  have "take m (drop k (map f [0..<n])) = map f (take m (drop k [0..<n]))"
    by (simp add: take_map drop_map)
  also have "take m (drop k [0..<n]) = [k..<k + m]"
    using assms by (simp add: take_upt)
  also have "[k..<k + m] = map (\<lambda>i. i + k) [0..<m]"
    by (simp add: map_add_upt add.commute)
  finally show ?thesis by (simp add: comp_def)
qed

section \<open>Facts behind the verdicts\<close>

text \<open>
  However the size token ends, \<^verbatim>\<open>parse_root\<close> takes the first branch of its cascade: the
  size is the numeral times 1024.
\<close>

lemma parse_root_fsize:
  assumes "parse_root s = Some (Some root)"
  shows "\<exists>p v. fst (strtok s CHR ''x'') = Some p \<and> numeral_prefix p = Some v
               \<and> fsize root = int_of_long v * 1024"
proof -
  note kilo = parse_root_kilo [OF parse_root_fits [OF assms]]
  from assms obtain p v where p: "fst (strtok s CHR ''x'') = Some p"
    and v: "numeral_prefix p = Some v"
    by (auto simp: kilo split: option.splits)
  let ?root = "\<lparr>fsize = int_of_long v * 1024, depth = 0, width = replicate MAXTOK 0\<rparr>"
  let ?r = "strtok (snd (strtok s CHR ''x'')) CHR ''x''"
  have eq: "width_loop (fst ?r) (snd ?r) ?root = Some (Some root)"
    using assms p v by (simp add: kilo)
  have inv: "root_inv ?root" by (simp add: root_inv_def)
  have ne: "\<And>u. fst ?r = Some u \<Longrightarrow> u \<noteq> []"
    by (rule strtok_token_nonempty)
  from width_loop_returns [of "fst ?r" ?root "snd ?r", OF ne inv]
  have "fsize root = fsize ?root" unfolding eq by blast
  with p v show ?thesis by simp
qed

text \<open>The names that \<^verbatim>\<open>sprintf\<close> writes read back, as decimal numerals, to the numbers they stand for.\<close>

lemma dec_digits_nonempty: "dec_digits n \<noteq> []"
  by (subst dec_digits.simps) simp

lemma isdigit_char_of: "d < 10 \<Longrightarrow> isdigit (char_of (48 + d :: nat))"
  by (simp add: isdigit_def)

lemma dec_digits_isdigit: "c \<in> set (dec_digits n) \<Longrightarrow> isdigit c"
proof (induction n arbitrary: c rule: dec_digits.induct)
  case (1 n)
  show ?case
  proof (cases "n < 10")
    case True
    with "1.prems" have "c = char_of (48 + n)"
      by (subst (asm) dec_digits.simps) simp
    with True show ?thesis by (simp add: isdigit_char_of)
  next
    case False
    with "1.prems" have "c \<in> set (dec_digits (n div 10)) \<or> c = char_of (48 + n mod 10)"
      by (subst (asm) dec_digits.simps) auto
    then show ?thesis
      using "1.IH" [OF False] by (auto simp: isdigit_char_of)
  qed
qed

lemma decimal_snoc: "decimal (ds @ [c]) = 10 * decimal ds + (int (of_char c) - 48)"
  by (simp add: decimal_def)

lemma decimal_dec_digits: "decimal (dec_digits n) = int n"
proof (induction n rule: dec_digits.induct)
  case (1 n)
  show ?case
  proof (cases "n < 10")
    case True
    then show ?thesis
      by (subst dec_digits.simps) (simp add: decimal_def)
  next
    case False
    have "decimal (dec_digits n) = 10 * decimal (dec_digits (n div 10)) + int (n mod 10)"
      using False by (subst dec_digits.simps) (simp add: decimal_snoc)
    also have "\<dots> = 10 * int (n div 10) + int (n mod 10)"
      using "1.IH" [OF False] by simp
    also have "\<dots> = int n" by presburger
    finally show ?thesis .
  qed
qed

lemma numeral_prefix_digits:
  assumes "ds \<noteq> []" and "\<And>c. c \<in> set ds \<Longrightarrow> isdigit c"
  shows "numeral_prefix ds = Some (decimal ds)"
proof -
  from assms(1) obtain c cs where ds: "ds = c # cs" by (cases ds) auto
  with assms(2) have c: "isdigit c" by simp
  then have nsp: "\<not> isspace c" and nsg: "c \<noteq> CHR ''-''" "c \<noteq> CHR ''+''"
    by (auto simp: isdigit_def isspace_def)
  have all: "takeWhile isdigit (c # cs) = c # cs"
    using assms(2) unfolding ds by (simp add: takeWhile_eq_all_conv)
  have drop: "dropWhile isspace (c # cs) = c # cs"
    using nsp by simp
  show ?thesis
    unfolding numeral_prefix_def ds drop Let_def using nsg
    by (simp only: list.case all if_False simp_thms) simp
qed

lemma sprintf_d_reads_back: "numeral_prefix (sprintf_d (int n)) = Some (int n)"
  using numeral_prefix_digits [OF dec_digits_nonempty dec_digits_isdigit, of n]
  by (simp add: sprintf_d_def decimal_dec_digits)

text \<open>They are the decimal strings of those numbers.\<close>

lemma digit_char_member:
  assumes "d < 10"
  shows "char_of (48 + d :: nat) \<in> set ''0123456789''"
proof -
  have "\<forall>d \<in> set [0..<10]. char_of (48 + d :: nat) \<in> set ''0123456789''"
    by code_simp
  with assms show ?thesis by simp
qed

lemma digit_char_value: "d < 10 \<Longrightarrow> of_char (char_of (48 + d :: nat)) - (48 :: nat) = d"
  by simp

lemma digit_char_zero: "d < 10 \<Longrightarrow> char_of (48 + d :: nat) = CHR ''0'' \<Longrightarrow> d = 0"
proof -
  assume d: "d < 10" and z: "char_of (48 + d :: nat) = CHR ''0''"
  from z have "of_char (char_of (48 + d :: nat)) - (48 :: nat) = of_char CHR ''0'' - 48"
    by simp
  with d show "d = 0" by (simp only: digit_char_value) simp
qed

lemma dec_digits_chars: "set (dec_digits n) \<subseteq> set ''0123456789''"
proof (induction n rule: dec_digits.induct)
  case (1 n)
  show ?case
  proof (cases "n < 10")
    case True
    then have "dec_digits n = [char_of (48 + n)]"
      by (subst dec_digits.simps) simp
    with digit_char_member [OF True] show ?thesis by simp
  next
    case False
    have m: "char_of (48 + n mod 10) \<in> set ''0123456789''"
      by (rule digit_char_member) simp
    have "set (dec_digits n) = set (dec_digits (n div 10)) \<union> {char_of (48 + n mod 10)}"
      using False by (subst dec_digits.simps) simp
    with "1.IH" [OF False] m show ?thesis by blast
  qed
qed

lemma decimal_value_snoc:
  "decimal_value (xs @ [c]) = (of_char c - 48) + 10 * decimal_value xs"
proof -
  have "[0..<length (xs @ [c])] = 0 # map Suc [0..<length xs]"
    by (simp add: upt_conv_Cons map_Suc_upt del: upt_Suc)
  then have "decimal_value (xs @ [c]) =
      (of_char c - 48) + sum_list (map (\<lambda>k. (of_char (rev xs ! k) - 48) * 10 ^ Suc k) [0..<length xs])"
    unfolding decimal_value_def by (simp add: comp_def)
  also have "sum_list (map (\<lambda>k. (of_char (rev xs ! k) - 48) * 10 ^ Suc k) [0..<length xs])
      = 10 * decimal_value xs"
    unfolding decimal_value_def by (simp add: sum_list_const_mult mult.assoc mult.left_commute)
  finally show ?thesis .
qed

lemma decimal_value_dec_digits: "decimal_value (dec_digits n) = n"
proof (induction n rule: dec_digits.induct)
  case (1 n)
  show ?case
  proof (cases "n < 10")
    case True
    have "decimal_value (dec_digits n) = decimal_value ([] @ [char_of (48 + n)])"
      using True by (subst dec_digits.simps) simp
    also have "\<dots> = n"
      unfolding decimal_value_snoc using True
      by (simp add: decimal_value_def)
    finally show ?thesis .
  next
    case False
    have "decimal_value (dec_digits n) = n mod 10 + 10 * decimal_value (dec_digits (n div 10))"
      using False by (subst dec_digits.simps) (simp add: decimal_value_snoc)
    also have "\<dots> = n mod 10 + 10 * (n div 10)"
      using "1.IH" [OF False] by simp
    finally show ?thesis by simp
  qed
qed

lemma dec_digits_leading_zero: "hd (dec_digits n) = CHR ''0'' \<Longrightarrow> n = 0"
proof (induction n rule: dec_digits.induct)
  case (1 n)
  show ?case
  proof (cases "n < 10")
    case True
    with "1.prems" have "char_of (48 + n) = CHR ''0''"
      by (subst (asm) dec_digits.simps) simp
    with True show ?thesis by (rule digit_char_zero)
  next
    case False
    with "1.prems" have "hd (dec_digits (n div 10)) = CHR ''0''"
      by (subst (asm) dec_digits.simps) (simp add: dec_digits_nonempty)
    from "1.IH" [OF False this] False show ?thesis by simp
  qed
qed

lemma dec_digits_zero: "length (dec_digits 0) = 1"
  by (subst dec_digits.simps) simp

lemma sprintf_d_decimal_string: "decimal_string n (sprintf_d (int n))"
proof -
  have "hd (dec_digits n) = CHR ''0'' \<Longrightarrow> length (dec_digits n) = 1"
    using dec_digits_leading_zero [of n] dec_digits_zero by auto
  then show ?thesis
    unfolding decimal_string_def sprintf_d_def
    using dec_digits_nonempty [of n] dec_digits_chars [of n] decimal_value_dec_digits [of n]
    by simp
qed

text \<open>
  A read at \<open>offset = file_size\<close> is empty; a read past the end is not clamped: it returns as
  many bytes as were asked for.
\<close>

lemma read_at_end_empty:
  assumes "file_path path root" and "flags AND 3 = O_RDONLY"
  shows "testfs_read path sz (scast (fsize root)) flags = Some (Inr [])"
proof -
  from assms(1) obtain r sels where t: "parse_path path = Some (r # sels)"
    and r: "parse_root r = Some (Some root)"
    and ok: "length sels = depth root" "leaf_ok root (last (r # sels))"
    by (rule file_path_tokens)
  have "\<not> 0 < sz \<longrightarrow> unat sz = 0"
    using word_neq_0_conv [of sz] by auto
  then show ?thesis
    unfolding read_tokens [OF t r] using ok assms(2) by (simp del: last.simps)
qed

lemma sint_of_int_32:
  "- (2 ^ 31) \<le> x \<Longrightarrow> x < 2 ^ 31 \<Longrightarrow> sint (word_of_int x :: 32 word) = x"
  by (simp add: signed_of_int signed_take_bit_int_eq_self)

lemma sint_of_nat_32: "j < 2 ^ 31 \<Longrightarrow> sint (of_nat j :: 32 word) = int j"
  using sint_of_int_32 [of "int j"] by simp

lemma sint_seed_sum:
  assumes "0 \<le> sint (seed :: 32 word)" and "sint seed + int j * 1723 < 2 ^ 31"
  shows "sint (seed + of_nat j * 1723) = sint seed + int j * 1723"
proof -
  have eq: "seed + of_nat j * 1723 = (word_of_int (sint seed + int j * 1723) :: 32 word)"
    by simp
  have lo: "- (2 ^ 31) \<le> sint seed + int j * 1723" using assms(1) by simp
  show ?thesis unfolding eq by (rule sint_of_int_32 [OF lo assms(2)])
qed

lemma of_nat_eq_pred:
  assumes "n < 2 ^ 31" and "j < n"
  shows "(of_nat j :: 32 word) = of_nat n - 1 \<longleftrightarrow> j = n - 1"
proof -
  from assms have a: "(of_nat n - 1 :: 32 word) = of_nat (n - 1)" by simp
  have b: "(of_nat j :: 32 word) = of_nat (n - 1) \<longleftrightarrow> j = n - 1"
    unfolding word_of_nat_eq_iff using assms by (simp add: take_bit_nat_eq_self)
  show ?thesis unfolding a by (fact b)
qed

lemma uint_past_end:
  assumes "sint (fs :: 32 word) < sint (offset :: 64 word)"
  shows "uint ((scast fs :: 64 word) - offset) = 2 ^ 64 + (sint fs - sint offset)"
proof -
  let ?x = "sint fs - sint offset"
  have "word_of_int ?x = (word_of_int (sint fs) :: 64 word) - word_of_int (sint offset)"
    by (rule of_int_diff)
  also have "word_of_int (sint offset) = offset" by simp
  also have "(word_of_int (sint fs) :: 64 word) = scast fs" by (rule scast_eq [symmetric])
  finally have eq: "(scast fs :: 64 word) - offset = word_of_int ?x" by (rule sym)
  have "- (2 ^ 31) \<le> sint fs" using sint_ge [of fs] by simp
  moreover have "sint offset < 2 ^ 63" using sint_lt [of offset] by simp
  ultimately have lo: "0 \<le> ?x + 2 ^ 64" by simp
  have hi: "?x + 2 ^ 64 < 2 ^ 64" using assms by simp
  have "?x mod 2 ^ 64 = (?x + 2 ^ 64) mod 2 ^ 64" by simp
  also have "\<dots> = ?x + 2 ^ 64" using lo hi by (rule mod_pos_pos_trivial)
  finally have m: "?x mod 2 ^ 64 = 2 ^ 64 + ?x" by simp
  have "uint (word_of_int ?x :: 64 word) = ?x mod 2 ^ 64"
    by (simp only: unsigned_of_int take_bit_eq_mod) simp
  then show ?thesis unfolding eq m .
qed


lemma read_past_end_unclamped:
  assumes fp: "file_path path root" and ro: "flags AND 3 = O_RDONLY"
    and past: "sint (fsize root) < sint offset" and small: "unat sz < 2 ^ 31"
  shows "map_option (map_sum id length) (testfs_read path sz offset flags) = Some (Inr (unat sz))"
proof -
  from fp obtain r sels where t: "parse_path path = Some (r # sels)"
    and r: "parse_root r = Some (Some root)"
    and ok: "length sels = depth root" "leaf_ok root (last (r # sels))"
    by (rule file_path_tokens)
  have "- (2 ^ 31) \<le> sint (fsize root)" using sint_ge [of "fsize root"] by simp
  moreover have "sint offset < 2 ^ 63" using sint_lt [of offset] by simp
  ultimately have "2 ^ 31 \<le> uint (scast (fsize root) - offset)"
    unfolding uint_past_end [OF past] by simp
  moreover have "uint sz < 2 ^ 31"
  proof -
    have "uint sz = int (unat sz)" by simp
    also have "\<dots> < int (2 ^ 31)" using small by (simp only: of_nat_less_iff)
    finally show ?thesis by simp
  qed
  ultimately have cmp: "\<not> (scast (fsize root) - offset < sz)"
    by (simp add: word_less_def)
  show ?thesis
    unfolding read_tokens [OF t r] using ok ro cmp by (simp del: last.simps)
qed

text \<open>
  Where \<open>seed + j * 1723\<close> stays below \<open>2 ^ 31\<close> and the seed is not negative, the byte at
  position \<open>j\<close> is the documented one.
\<close>

lemma content_byte_in_range:
  assumes nn: "0 \<le> sint seed" and j: "int j < sint (fsize root)"
    and fit: "sint seed + int j * 1723 < 2 ^ 31"
  shows "content_byte root seed (of_nat j) =
           (if j mod 32 = 31 \<or> int j = sint (fsize root) - 1 then CHR 0x0A
            else char_of (97 + (sint seed + int j * 1723) mod 26))"
proof -
  define n where "n = nat (sint (fsize root))"
  have n31: "n < 2 ^ 31" unfolding n_def using sint_lt [of "fsize root"] by simp
  have jn: "j < n" unfolding n_def using j by simp
  have pos: "0 \<le> sint (fsize root)" using j by simp
  have fs: "fsize root = of_nat n"
    unfolding n_def by (rule nonneg_word_of_nat [OF pos])
  have sn: "sint (fsize root) = int n" unfolding n_def using pos by simp
  have j31: "j < 2 ^ 31" using jn n31 by simp
  have sj: "sint (of_nat j :: 32 word) = int j"
    by (rule sint_of_nat_32 [OF j31])
  have "int j smod 32 = int j mod 32" by (simp add: smod_mod_positive)
  also have "\<dots> = int (j mod 32)" by (simp add: zmod_int)
  finally have "int j smod 32 = 31 \<longleftrightarrow> j mod 32 = 31" by linarith
  then have c1: "sint (of_nat j :: 32 word) smod 32 = 31 \<longleftrightarrow> j mod 32 = 31"
    unfolding sj .
  have "j = n - 1 \<longleftrightarrow> int j = int n - 1" using jn by linarith
  then have c2: "(of_nat j :: 32 word) = fsize root - 1 \<longleftrightarrow> int j = sint (fsize root) - 1"
    unfolding sn unfolding fs of_nat_eq_pred [OF n31 jn] .
  have "0 \<le> sint seed + int j * 1723" using nn by simp
  then have c3: "sint (seed + of_nat j * 1723) smod 26 = (sint seed + int j * 1723) mod 26"
    unfolding sint_seed_sum [OF nn fit] by (simp add: smod_mod_positive)
  show ?thesis unfolding content_byte_def c1 c2 c3 ..
qed

section \<open>The size token\<close>

text \<open>
  C1. The documented grammar gives the size token a unit suffix: k or K for 1024,
  m or M for 1024 squared, g or G for 1024 cubed, none for bytes. The cascade of
  \<^verbatim>\<open>sscanf\<close> calls in \<^verbatim>\<open>parse_root\<close> never gets past its first branch, because
  \<^verbatim>\<open>sscanf(p, "%dk", &val)\<close> is 1 whenever a numeral was read: every size is the
  numeral times 1024. The descriptors \<^verbatim>\<open>1mx5\<close>, \<^verbatim>\<open>1Gx5\<close> and \<^verbatim>\<open>7x5\<close> get the
  sizes 1024, 1024 and 7168 instead of 1048576, 1073741824 and 7.
\<close>

theorem parse_root_suffix_ignored:
  "parse_root ''1mx5'' = Some (Some \<lparr>fsize = 1024, depth = 1, width = 5 # replicate 15 0\<rparr>)
   \<and> parse_root ''1Gx5'' = Some (Some \<lparr>fsize = 1024, depth = 1, width = 5 # replicate 15 0\<rparr>)
   \<and> parse_root ''7x5'' = Some (Some \<lparr>fsize = 7168, depth = 1, width = 5 # replicate 15 0\<rparr>)"
  by code_simp

section \<open>Reading at and past the end of the file\<close>

text \<open>
  C2. A read at or past the end of a file should give zero bytes. At
  \<open>offset = file_size\<close> it does. Past the end it does not: \<^verbatim>\<open>root.fsize-offset\<close> is
  negative, the comparison with the \<^verbatim>\<open>size_t\<close> request is unsigned, so the request is
  not clamped, and \<^verbatim>\<open>size <= 0\<close> can only see zero. The file \<^verbatim>\<open>/1kx5x4/2/3\<close> has
  1024 bytes; a read of 10 bytes at offset 2000 returns 10 letters.
\<close>

theorem read_past_end_returns_bytes:
  "file_path ''/1kx5x4/2/3'' \<lparr>fsize = 1024, depth = 2, width = 5 # 4 # replicate 14 0\<rparr>
   \<and> testfs_read ''/1kx5x4/2/3'' 10 2000 O_RDONLY = Some (Inr ''tahovcjqxe'')"
  by code_simp

section \<open>Malformed descriptors\<close>

text \<open>
  C3, as amended. For every path that fits the 256-byte buffers and whose first
  segment is \<^verbatim>\<open>5x0x3\<close>, the descriptor fails to parse (the zero width) and each of the
  four handlers reports not-found. (The segment \<^verbatim>\<open>x5x4\<close> of the claim is a different
  matter, see below.)
\<close>

theorem zero_width_descriptor_not_found:
  assumes "length path < 256" and "segments path = ''5x0x3'' # sels"
  shows "parse_root ''5x0x3'' = Some None
       \<and> testfs_getattr path = Some (Inl ENOENT)
       \<and> testfs_readdir path = Some (Inl ENOENT)
       \<and> testfs_open path flags = Some (Inl ENOENT)
       \<and> testfs_read path sz offset flags = Some (Inl ENOENT)"
proof -
  have bad: "parse_root ''5x0x3'' = Some None" by code_simp
  from bad_root_tokens [OF parse_path_Cons [OF assms] bad] bad show ?thesis by blast
qed

theorem zero_width_descriptor_not_found_witness:
  "length ''/5x0x3/1'' < 256
   \<and> segments ''/5x0x3/1'' = ''5x0x3'' # [''1'']
   \<and> parse_root ''5x0x3'' = Some None
   \<and> testfs_getattr ''/5x0x3/1'' = Some (Inl ENOENT)
   \<and> testfs_readdir ''/5x0x3/1'' = Some (Inl ENOENT)
   \<and> testfs_open ''/5x0x3/1'' 0 = Some (Inl ENOENT)
   \<and> testfs_read ''/5x0x3/1'' 8 0 0 = Some (Inl ENOENT)"
proof -
  have l: "length ''/5x0x3/1'' < 256" by simp
  have h: "segments ''/5x0x3/1'' = ''5x0x3'' # [''1'']" by code_simp
  from zero_width_descriptor_not_found [OF l h, of 0 8 0] l h show ?thesis by simp
qed

text \<open>
  C3, counterexample. \<^verbatim>\<open>strtok\<close> skips leading delimiters, so in \<^verbatim>\<open>x5x4\<close> the size
  token is \<^verbatim>\<open>5\<close> and the only width is 4: the descriptor parses, \<^verbatim>\<open>/x5x4\<close> is a
  directory with four entries and \<^verbatim>\<open>/x5x4/2\<close> opens and reads.
\<close>

theorem leading_x_descriptor_parses:
  "segments ''/x5x4'' = [''x5x4'']
   \<and> parse_root ''x5x4'' = Some (Some \<lparr>fsize = 5120, depth = 1, width = 4 # replicate 15 0\<rparr>)
   \<and> testfs_getattr ''/x5x4'' = Some (Inr dir_stat)
   \<and> testfs_readdir ''/x5x4'' = Some (Inr [''.'', ''..'', ''0'', ''1'', ''2'', ''3''])
   \<and> testfs_open ''/x5x4/2'' O_RDONLY = Some (Inr ())
   \<and> testfs_read ''/x5x4/2'' 4 0 O_RDONLY = Some (Inr ''ovcj'')"
  by code_simp

section \<open>Open and the access mode\<close>

text \<open>
  C4, as amended. On a file path that fits the 256-byte buffers, open succeeds
  exactly when the access mode
  \<^verbatim>\<open>flags & 3\<close> is \<^verbatim>\<open>O_RDONLY\<close>, and is refused with \<^verbatim>\<open>EACCES\<close> otherwise; no
  other bit of the flags is looked at.
\<close>

theorem open_access_mode:
  assumes "length path < 256" and "file_path path root"
  shows "testfs_open path flags =
           Some (if flags AND 3 = O_RDONLY then Inr () else Inl EACCES)"
proof -
  from assms(2) obtain r sels where t: "parse_path path = Some (r # sels)"
    and r: "parse_root r = Some (Some root)"
    and ok: "length sels = depth root" "leaf_ok root (last (r # sels))"
    by (rule file_path_tokens)
  from open_tokens [OF t r] ok show ?thesis by simp
qed

theorem open_access_mode_witness:
  "length ''/1kx5x4/2/3'' < 256
   \<and> file_path ''/1kx5x4/2/3'' \<lparr>fsize = 1024, depth = 2, width = 5 # 4 # replicate 14 0\<rparr>
   \<and> testfs_open ''/1kx5x4/2/3'' 0 = Some (Inr ())
   \<and> testfs_open ''/1kx5x4/2/3'' 1 = Some (Inl EACCES)
   \<and> testfs_open ''/1kx5x4/2/3'' 2 = Some (Inl EACCES)"
proof -
  have h: "file_path ''/1kx5x4/2/3'' \<lparr>fsize = 1024, depth = 2, width = 5 # 4 # replicate 14 0\<rparr>"
    by code_simp
  have l: "length ''/1kx5x4/2/3'' < 256" by simp
  from open_access_mode [OF l h, of 0] open_access_mode [OF l h, of 1]
    open_access_mode [OF l h, of 2] l h
  show ?thesis by (simp add: O_RDONLY_def)
qed

text \<open>
  C4, counterexample. \<^verbatim>\<open>O_APPEND\<close> lies outside the access mode: a read-only open
  with \<^verbatim>\<open>O_APPEND\<close> set succeeds.
\<close>

theorem open_accepts_append:
  "file_path ''/1kx5x4/2/3'' \<lparr>fsize = 1024, depth = 2, width = 5 # 4 # replicate 14 0\<rparr>
   \<and> (O_RDONLY OR O_APPEND) AND O_APPEND = O_APPEND
   \<and> testfs_open ''/1kx5x4/2/3'' (O_RDONLY OR O_APPEND) = Some (Inr ())"
  by code_simp

section \<open>The bytes of a file\<close>

text \<open>
  C5. Every byte of a file should be a newline (at \<open>j mod 32 = 31\<close> and at the last
  position) or the lowercase letter number \<open>(seed + j * 1723) mod 26\<close>. The sum is
  computed in \<^verbatim>\<open>int\<close>: once \<open>seed + j * 1723\<close> passes \<open>2 ^ 31\<close> it wraps to a negative
  number, \<^verbatim>\<open>%\<close> gives a negative remainder, and the byte falls below \<^verbatim>\<open>'a'\<close>. In the
  file \<^verbatim>\<open>/2000x1/0\<close> of 2048000 bytes, with seed 25557, the four bytes from position
  1246400 are \<^verbatim>\<open>PW^K\<close>.
\<close>

theorem content_byte_overflow:
  "file_path ''/2000x1/0'' \<lparr>fsize = 2048000, depth = 1, width = 1 # replicate 15 0\<rparr>
   \<and> seed_from_path ''/2000x1/0'' = 25557
   \<and> testfs_read ''/2000x1/0'' 4 1246400 O_RDONLY = Some (Inr ''PW^K'')"
  by code_simp

section \<open>Attributes by depth\<close>

text \<open>
  Where the tokenizer keeps every segment (at most 15 after the root), or the
  descriptor has at most 14 layers, attribute lookup classifies a path by the number
  \<open>k\<close> of its segments after the root: directory for \<open>k < depth\<close>, regular file of the
  descriptor's size for \<open>k = depth\<close>, not-found for \<open>k > depth\<close>.
\<close>

lemma getattr_by_depth:
  assumes "length path < 256"
    and "segments path = r # sels" and "parse_root r = Some (Some root)"
    and "length sels < MAXTOK \<or> depth root + 1 < MAXTOK"
  shows "testfs_getattr path =
           Some (if length sels < depth root then Inr dir_stat
                 else if length sels = depth root then Inr (reg_stat (fsize root))
                 else Inl ENOENT)"
proof (cases "length sels < MAXTOK")
  case True
  from getattr_tokens [OF parse_path_short [OF assms(1,2) True] assms(3)]
  show ?thesis .
next
  case False
  with assms(4) have d: "depth root + 1 < MAXTOK" by simp
  let ?sels = "take (MAXTOK - 1) sels"
  have len: "length ?sels = MAXTOK - 1" using False by (simp add: MAXTOK_def)
  from getattr_tokens [OF parse_path_Cons [OF assms(1,2)] assms(3)] len d False
  show ?thesis by (simp add: MAXTOK_def)
qed

text \<open>
  C6. For every path with a valid descriptor and \<open>k\<close> segments after the root,
  attribute lookup should report a directory when \<open>k < depth\<close>, a regular file when
  \<open>k = depth\<close> and not-found when \<open>k > depth\<close>. \<^verbatim>\<open>parse_path\<close> stops at \<^verbatim>\<open>MAXTOK\<close>
  tokens, the root segment among them, so a path of more than 16 segments is
  classified by its first 16. Under a descriptor of 16 layers the path with 16
  selectors (\<open>k = depth\<close>) is reported as a directory; under a descriptor of 15 layers
  the path with 17 selectors (\<open>k > depth\<close>) is reported as a regular file.
\<close>

theorem getattr_token_limit:
  "segments ''/1x1x1x1x1x1x1x1x1x1x1x1x1x1x1x1x1/0/0/0/0/0/0/0/0/0/0/0/0/0/0/0/0'' =
     ''1x1x1x1x1x1x1x1x1x1x1x1x1x1x1x1x1'' # replicate 16 ''0''
   \<and> parse_root ''1x1x1x1x1x1x1x1x1x1x1x1x1x1x1x1x1'' =
       Some (Some \<lparr>fsize = 1024, depth = 16, width = replicate 16 1\<rparr>)
   \<and> testfs_getattr ''/1x1x1x1x1x1x1x1x1x1x1x1x1x1x1x1x1/0/0/0/0/0/0/0/0/0/0/0/0/0/0/0/0'' =
       Some (Inr dir_stat)
   \<and> dir_stat \<noteq> reg_stat 1024
   \<and> segments ''/1x1x1x1x1x1x1x1x1x1x1x1x1x1x1x1/0/0/0/0/0/0/0/0/0/0/0/0/0/0/0/0/0'' =
     ''1x1x1x1x1x1x1x1x1x1x1x1x1x1x1x1'' # replicate 17 ''0''
   \<and> parse_root ''1x1x1x1x1x1x1x1x1x1x1x1x1x1x1x1'' =
       Some (Some \<lparr>fsize = 1024, depth = 15, width = replicate 15 1 @ [0]\<rparr>)
   \<and> testfs_getattr ''/1x1x1x1x1x1x1x1x1x1x1x1x1x1x1x1/0/0/0/0/0/0/0/0/0/0/0/0/0/0/0/0/0'' =
       Some (Inr (reg_stat 1024))"
  by code_simp

section \<open>Directory listing\<close>

text \<open>
  C7. For a path that fits the 256-byte buffers, with \<open>k\<close> segments after a valid
  root segment, \<open>k < depth\<close>, the listing has exactly \<open>w + 2\<close> entries, where \<open>w\<close> is
  the width of layer \<open>k\<close>: first \<^verbatim>\<open>.\<close> and \<^verbatim>\<open>..\<close>, then, for each \<open>i\<close> from 0 to
  \<open>w - 1\<close> in order, the decimal string of \<open>i\<close>; and \<open>w\<close> lies between 1 and 1000000.
\<close>

theorem readdir_entries:
  assumes "length path < 256"
    and "segments path = r # sels" and "parse_root r = Some (Some root)"
    and "length sels < depth root"
    and "w = nat (sint (width root ! length sels))"
  shows "\<exists>es. testfs_readdir path = Some (Inr es)
           \<and> length es = w + 2 \<and> es ! 0 = ''.'' \<and> es ! 1 = ''..''
           \<and> (\<forall>i<w. decimal_string i (es ! (i + 2)))
           \<and> 0 < w \<and> int w \<le> MAXWIDTH"
proof -
  define es where "es = ''.'' # ''..'' # map (\<lambda>i. sprintf_d (int i)) [0..<w]"
  from parse_root_depth [OF assms(3)] have inv: "root_inv root" .
  then have "depth root \<le> MAXTOK" by (simp add: root_inv_def)
  with assms(4) have "length sels < MAXTOK" by simp
  from readdir_tokens [OF parse_path_short [OF assms(1,2) this] assms(3)] assms(4,5)
  have rd: "testfs_readdir path = Some (Inr es)"
    by (simp add: es_def)
  from inv assms(4)
  have "0 < sint (width root ! length sels) \<and> sint (width root ! length sels) \<le> MAXWIDTH"
    unfolding root_inv_def by blast
  with assms(5) have w: "0 < w \<and> int w \<le> MAXWIDTH" by simp
  have len: "length es = w + 2" by (simp add: es_def)
  have dots: "es ! 0 = ''.'' \<and> es ! 1 = ''..''" by (simp add: es_def)
  have names: "\<forall>i<w. decimal_string i (es ! (i + 2))"
  proof (intro allI impI)
    fix i assume "i < w"
    then have "es ! (i + 2) = sprintf_d (int i)" by (simp add: es_def)
    then show "decimal_string i (es ! (i + 2))"
      by (simp only: sprintf_d_decimal_string)
  qed
  from rd len dots names w show ?thesis by blast
qed

theorem readdir_entries_witness:
  "length ''/1x12'' < 256
   \<and> segments ''/1x12'' = ''1x12'' # []
   \<and> parse_root ''1x12'' = Some (Some \<lparr>fsize = 1024, depth = 1, width = 12 # replicate 15 0\<rparr>)
   \<and> testfs_readdir ''/1x12'' =
       Some (Inr ([''.'', ''..''] @ [''0'', ''1'', ''2'', ''3''] @ [''4'', ''5'', ''6'', ''7'']
                  @ [''8'', ''9'', ''10'', ''11'']))
   \<and> decimal_string 9 ''9'' \<and> decimal_string 10 ''10'' \<and> decimal_string 11 ''11''"
proof -
  let ?root = "\<lparr>fsize = 1024, depth = 1, width = 12 # replicate 15 0\<rparr>"
  let ?names = "[''.'', ''..''] @ [''0'', ''1'', ''2'', ''3''] @ [''4'', ''5'', ''6'', ''7'']
                  @ [''8'', ''9'', ''10'', ''11'']"
  have h0: "length ''/1x12'' < 256" by simp
  have h1: "segments ''/1x12'' = ''1x12'' # []" by code_simp
  have h2: "parse_root ''1x12'' = Some (Some ?root)" by code_simp
  have h3: "length ([] :: string list) < depth ?root" by simp
  have h4: "(12::nat) = nat (sint (width ?root ! length ([] :: string list)))" by simp
  have ev: "testfs_readdir ''/1x12'' = Some (Inr ?names)" by code_simp
  from readdir_entries [OF h0 h1 h2 h3 h4]
  obtain es where a: "testfs_readdir ''/1x12'' = Some (Inr es)"
    and b: "\<forall>i<12. decimal_string i (es ! (i + 2))" by blast
  from a ev have es: "es = ?names" by simp
  from b [rule_format, of 9] have "decimal_string 9 (es ! (9 + 2))" by simp
  then have d9: "decimal_string 9 ''9''" unfolding es by simp
  from b [rule_format, of 10] have "decimal_string 10 (es ! (10 + 2))" by simp
  then have d10: "decimal_string 10 ''10''" unfolding es by simp
  from b [rule_format, of 11] have "decimal_string 11 (es ! (11 + 2))" by simp
  then have d11: "decimal_string 11 ''11''" unfolding es by simp
  from h0 h1 h2 ev d9 d10 d11 show ?thesis by simp
qed

section \<open>Reading a file in pieces\<close>

text \<open>
  C8. On a file path that fits the 256-byte buffers, opened read-only, with a file
  size that is not negative, the
  read of \<open>[0, file_size)\<close> returns exactly \<open>file_size\<close> bytes, the last of which
  (when there is one) is a newline; and the read of any range \<open>[offset, offset + size)\<close>
  inside \<open>[0, file_size)\<close> returns the bytes of the full read from \<open>offset\<close> on,
  \<open>size\<close> of them.
\<close>

theorem read_round_trip:
  assumes fits: "length path < 256"
    and fp: "file_path path root" and ro: "flags AND 3 = O_RDONLY"
    and nn: "0 \<le> sint (fsize root)"
    and off: "0 \<le> sint offset" and rng: "sint offset + int (unat sz) \<le> sint (fsize root)"
  shows "\<exists>full. testfs_read path (scast (fsize root)) 0 flags = Some (Inr full)
           \<and> length full = nat (sint (fsize root))
           \<and> (full \<noteq> [] \<longrightarrow> last full = CHR 0x0A)
           \<and> testfs_read path sz offset flags =
               Some (Inr (take (unat sz) (drop (nat (sint offset)) full)))"
proof -
  from fp obtain r sels where t: "parse_path path = Some (r # sels)"
    and r: "parse_root r = Some (Some root)"
    and ok: "length sels = depth root" "leaf_ok root (last (r # sels))"
    by (rule file_path_tokens)
  define n where "n = nat (sint (fsize root))"
  define k where "k = nat (sint offset)"
  define m where "m = unat sz"
  define f where "f = (\<lambda>j. content_byte root (seed_from_path path) (of_nat j))"
  define full where "full = map f [0..<n]"
  have n31: "n < 2 ^ 31" unfolding n_def using sint_lt [of "fsize root"] by simp
  have fs64: "(scast (fsize root) :: 64 word) = of_nat n"
    unfolding n_def by (rule scast_nonneg_of_nat [OF nn])
  have fs32: "fsize root = of_nat n"
    unfolding n_def by (rule nonneg_word_of_nat [OF nn])
  have offk: "offset = of_nat k"
    unfolding k_def by (rule nonneg_word_of_nat [OF off])
  have km: "k + m \<le> n" using rng off nn unfolding k_def m_def n_def by linarith
  have un: "unat (of_nat n :: 64 word) = n"
    using n31 by (intro unat_of_nat_64) simp
  have R0: "testfs_read path (scast (fsize root)) 0 flags = Some (Inr full)"
    unfolding read_tokens [OF t r] fs64 full_def f_def using ok ro
    by (simp add: un ucast_of_nat_narrow del: last.simps)
  have unk: "unat (of_nat (n - k) :: 64 word) = n - k"
    using n31 by (intro unat_of_nat_64) simp
  have diff: "(of_nat n :: 64 word) - of_nat k = of_nat (n - k)"
    using km by simp
  have cmp: "\<not> (scast (fsize root) - offset < sz)"
    unfolding fs64 offk diff word_less_nat_alt unk using km by (simp add: m_def)
  have cast: "\<And>i. (ucast ((of_nat i :: 64 word) + of_nat k) :: 32 word) = of_nat (i + k)"
    by (simp add: ucast_of_nat_narrow flip: of_nat_add)
  have "testfs_read path sz offset flags = Some (Inr (map (\<lambda>i. f (i + k)) [0..<m]))"
    unfolding read_tokens [OF t r] using ok ro cmp
    by (simp add: offk cast f_def m_def del: last.simps)
  also have "map (\<lambda>i. f (i + k)) [0..<m] = take m (drop k full)"
    unfolding full_def by (rule slice_map_upt [OF km, symmetric])
  finally have R1: "testfs_read path sz offset flags =
      Some (Inr (take (unat sz) (drop (nat (sint offset)) full)))"
    unfolding m_def k_def .
  have len: "length full = nat (sint (fsize root))"
    by (simp add: full_def n_def)
  have lst: "full \<noteq> [] \<longrightarrow> last full = CHR 0x0A"
  proof
    assume "full \<noteq> []"
    then have pos: "0 < n" by (simp add: full_def)
    then have "last full = f (n - 1)"
      by (simp add: full_def last_map last_upt)
    also have "(of_nat (n - 1) :: 32 word) = fsize root - 1"
      using pos by (simp add: fs32)
    then have "f (n - 1) = CHR 0x0A"
      by (simp add: f_def content_byte_def)
    finally show "last full = CHR 0x0A" .
  qed
  from R0 len lst R1 show ?thesis by blast
qed

theorem read_round_trip_witness:
  "length ''/1kx5x4/2/3'' < 256
   \<and> file_path ''/1kx5x4/2/3'' \<lparr>fsize = 1024, depth = 2, width = 5 # 4 # replicate 14 0\<rparr>
   \<and> (case testfs_read ''/1kx5x4/2/3'' 1024 0 0 of
        Some (Inr full) \<Rightarrow>
          length full = 1024 \<and> last full = CHR 0x0A \<and>
          testfs_read ''/1kx5x4/2/3'' 40 984 0 = Some (Inr (take 40 (drop 984 full)))
      | _ \<Rightarrow> False)"
proof -
  let ?root = "\<lparr>fsize = 1024, depth = 2, width = 5 # 4 # replicate 14 0\<rparr>"
  have h1: "file_path ''/1kx5x4/2/3'' ?root" by code_simp
  have h2: "(0 :: c_int) AND 3 = O_RDONLY" by (simp add: O_RDONLY_def)
  have h3: "0 \<le> sint (fsize ?root)" by simp
  have h4: "0 \<le> sint (984 :: off_t)" by simp
  have h5: "sint (984 :: off_t) + int (unat (40 :: size_t)) \<le> sint (fsize ?root)" by simp
  have h0: "length ''/1kx5x4/2/3'' < 256" by simp
  from read_round_trip [OF h0 h1 h2 h3 h4 h5]
  obtain full where a: "testfs_read ''/1kx5x4/2/3'' 1024 0 0 = Some (Inr full)"
    and b: "length full = 1024" and c: "full \<noteq> [] \<longrightarrow> last full = CHR 0x0A"
    and d: "testfs_read ''/1kx5x4/2/3'' 40 984 0 = Some (Inr (take 40 (drop 984 full)))"
    by auto
  from b have "full \<noteq> []" by auto
  with a b c d h0 h1 show ?thesis by simp
qed

section \<open>Intermediate selectors\<close>

text \<open>
  C9. For a path that fits the 256-byte buffers, the verdict of each handler is a
  function of the descriptor, the number of tokens and, for open and read, the last
  token and the flags. Nothing else of the path enters: whatever the segments
  between the root and the last one are, attribute lookup reports a directory or a
  file by the count alone, the listing depends on the count alone, and open and read
  succeed as soon as the count is \<open>depth\<close>, the last token is a number within the last
  layer and the mode is read-only.
\<close>

theorem selectors_unchecked:
  assumes "length path < 256"
    and "parse_path path = Some (r # sels)" and "parse_root r = Some (Some root)"
  shows "testfs_getattr path =
           Some (if length sels < depth root then Inr dir_stat
                 else if length sels = depth root then Inr (reg_stat (fsize root))
                 else Inl ENOENT)
       \<and> testfs_readdir path =
           Some (if length sels < depth root
                 then Inr ([''.'', ''..''] @
                        map (\<lambda>i. sprintf_d (int i)) [0..<nat (sint (width root ! length sels))])
                 else Inl ENOENT)
       \<and> testfs_open path flags =
           Some (if length sels = depth root \<and> leaf_ok root (last (r # sels))
                 then (if flags AND 3 = O_RDONLY then Inr () else Inl EACCES)
                 else Inl ENOENT)
       \<and> map_option isl (testfs_read path sz offset flags) =
           Some (\<not> (length sels = depth root \<and> leaf_ok root (last (r # sels))
                    \<and> flags AND 3 = O_RDONLY))"
proof -
  note t = assms(2,3)
  have "map_option isl (testfs_read path sz offset flags) =
           Some (\<not> (length sels = depth root \<and> leaf_ok root (last (r # sels))
                    \<and> flags AND 3 = O_RDONLY))"
    unfolding read_tokens [OF t] by (auto simp del: last.simps)
  with getattr_tokens [OF t] readdir_tokens [OF t] open_tokens [OF t, of flags]
  show ?thesis by (simp only: simp_thms)
qed

theorem selectors_unchecked_witness:
  "length ''/1kx5x4/zz/3'' < 256 \<and> length ''/1kx5x4/99'' < 256
   \<and> parse_path ''/1kx5x4/zz/3'' = Some (''1kx5x4'' # [''zz'', ''3''])
   \<and> parse_path ''/1kx5x4/99'' = Some (''1kx5x4'' # [''99''])
   \<and> parse_root ''1kx5x4'' = Some (Some \<lparr>fsize = 1024, depth = 2, width = 5 # 4 # replicate 14 0\<rparr>)
   \<and> testfs_getattr ''/1kx5x4/99'' = Some (Inr dir_stat)
   \<and> testfs_getattr ''/1kx5x4/zz/3'' = Some (Inr (reg_stat 1024))
   \<and> testfs_open ''/1kx5x4/zz/3'' 0 = Some (Inr ())
   \<and> map_option isl (testfs_read ''/1kx5x4/zz/3'' 4 0 0) = Some False"
proof -
  let ?root = "\<lparr>fsize = 1024, depth = 2, width = 5 # 4 # replicate 14 0\<rparr>"
  have l: "length ''/1kx5x4/zz/3'' < 256" by simp
  have l': "length ''/1kx5x4/99'' < 256" by simp
  have h1: "parse_path ''/1kx5x4/zz/3'' = Some (''1kx5x4'' # [''zz'', ''3''])" by code_simp
  have h1': "parse_path ''/1kx5x4/99'' = Some (''1kx5x4'' # [''99''])" by code_simp
  have h2: "parse_root ''1kx5x4'' = Some (Some ?root)" by code_simp
  have ok: "leaf_ok ?root ''3''" by code_simp
  from selectors_unchecked [OF l h1 h2, of 0 4 0] selectors_unchecked [OF l' h1' h2, of 0 4 0]
    l l' h1 h1' h2 ok
  show ?thesis by (simp add: O_RDONLY_def)
qed

section \<open>Sixteen layers\<close>

text \<open>
  C10. The tokenizer never returns more than 16 tokens, so under a descriptor of 16
  layers no path (that fits the 256-byte buffers) has the 17 tokens of a file: open
  and read report not-found for every path, and attribute lookup reports a
  directory, never a regular file.
\<close>

theorem sixteen_layers_no_files:
  assumes "length path < 256"
    and "segments path = r # sels" and "parse_root r = Some (Some root)"
    and "depth root = MAXTOK"
  shows "(\<exists>tok. parse_path path = Some tok \<and> length tok \<le> MAXTOK
                \<and> length tok \<noteq> depth root + 1)
       \<and> testfs_open path flags = Some (Inl ENOENT)
       \<and> testfs_read path sz offset flags = Some (Inl ENOENT)
       \<and> testfs_getattr path = Some (Inr dir_stat)
       \<and> testfs_getattr path \<noteq> Some (Inr (reg_stat s))"
proof -
  let ?sels = "take (MAXTOK - 1) sels"
  have t: "parse_path path = Some (r # ?sels)" by (rule parse_path_Cons [OF assms(1,2)])
  have len: "length ?sels < depth root" using assms(4) by (simp add: MAXTOK_def)
  then have "length (r # ?sels) \<le> MAXTOK \<and> length (r # ?sels) \<noteq> depth root + 1"
    using assms(4) by simp
  with t have tk: "\<exists>tok. parse_path path = Some tok \<and> length tok \<le> MAXTOK
                \<and> length tok \<noteq> depth root + 1" by blast
  from len getattr_tokens [OF t assms(3)] open_tokens [OF t assms(3), of flags]
    read_tokens [OF t assms(3), of sz offset flags] dir_not_reg [of s]
  have "testfs_open path flags = Some (Inl ENOENT)
       \<and> testfs_read path sz offset flags = Some (Inl ENOENT)
       \<and> testfs_getattr path = Some (Inr dir_stat)
       \<and> testfs_getattr path \<noteq> Some (Inr (reg_stat s))" by simp
  with tk show ?thesis by blast
qed

theorem sixteen_layers_no_files_witness:
  "length ''/1x1x1x1x1x1x1x1x1x1x1x1x1x1x1x1x1/0/0/0/0/0/0/0/0/0/0/0/0/0/0/0/0'' < 256
   \<and> segments ''/1x1x1x1x1x1x1x1x1x1x1x1x1x1x1x1x1/0/0/0/0/0/0/0/0/0/0/0/0/0/0/0/0'' =
     ''1x1x1x1x1x1x1x1x1x1x1x1x1x1x1x1x1'' # replicate 16 ''0''
   \<and> parse_root ''1x1x1x1x1x1x1x1x1x1x1x1x1x1x1x1x1'' =
       Some (Some \<lparr>fsize = 1024, depth = 16, width = replicate 16 1\<rparr>)
   \<and> parse_path ''/1x1x1x1x1x1x1x1x1x1x1x1x1x1x1x1x1/0/0/0/0/0/0/0/0/0/0/0/0/0/0/0/0'' =
       Some (''1x1x1x1x1x1x1x1x1x1x1x1x1x1x1x1x1'' # replicate 15 ''0'')
   \<and> testfs_open ''/1x1x1x1x1x1x1x1x1x1x1x1x1x1x1x1x1/0/0/0/0/0/0/0/0/0/0/0/0/0/0/0/0'' 0 =
       Some (Inl ENOENT)
   \<and> testfs_read ''/1x1x1x1x1x1x1x1x1x1x1x1x1x1x1x1x1/0/0/0/0/0/0/0/0/0/0/0/0/0/0/0/0'' 8 0 0 =
       Some (Inl ENOENT)
   \<and> testfs_getattr ''/1x1x1x1x1x1x1x1x1x1x1x1x1x1x1x1x1/0/0/0/0/0/0/0/0/0/0/0/0/0/0/0/0'' =
       Some (Inr dir_stat)"
proof -
  let ?root = "\<lparr>fsize = 1024, depth = 16, width = replicate 16 1\<rparr>"
  have l: "length ''/1x1x1x1x1x1x1x1x1x1x1x1x1x1x1x1x1/0/0/0/0/0/0/0/0/0/0/0/0/0/0/0/0'' < 256" by simp
  have h1: "segments ''/1x1x1x1x1x1x1x1x1x1x1x1x1x1x1x1x1/0/0/0/0/0/0/0/0/0/0/0/0/0/0/0/0'' =
     ''1x1x1x1x1x1x1x1x1x1x1x1x1x1x1x1x1'' # replicate 16 ''0''" by code_simp
  have h2: "parse_root ''1x1x1x1x1x1x1x1x1x1x1x1x1x1x1x1x1'' = Some (Some ?root)" by code_simp
  have h3: "depth ?root = MAXTOK" by (simp add: MAXTOK_def)
  have h4: "parse_path ''/1x1x1x1x1x1x1x1x1x1x1x1x1x1x1x1x1/0/0/0/0/0/0/0/0/0/0/0/0/0/0/0/0'' =
       Some (''1x1x1x1x1x1x1x1x1x1x1x1x1x1x1x1x1'' # replicate 15 ''0'')" by code_simp
  from sixteen_layers_no_files [OF l h1 h2 h3, of 0 8 0] l h1 h2 h4 show ?thesis by simp
qed

end
